theory Spec2Isabelle
  imports Complex_Main "HOL-Library.Word"
begin

unbundle bit_operations_syntax

section \<open>JavaScript numbers\<close>

text \<open>
  The program computes with JavaScript numbers. A number is modelled as a not-a-number
  value, one of the two infinities, or a finite value carried as a real. Rounding of
  finite results and the sign of zero are not represented. Every divisor in the program
  is non-negative, so a zero divisor is \<open>+0\<close>. In the sample conversion nothing is
  rounded: a clamped 32-bit float is multiplied by 32767 or 32768, and a double holds the
  product of a 24-bit significand and a 16-bit integer exactly. The duration estimate and
  the draw rectangle are computed over the exact quotients.
\<close>

datatype number = NaN | PosInf | NegInf | Fin real

text \<open>The relational operator \<^verbatim>\<open><\<close>: false as soon as one side is NaN.\<close>

fun num_lt :: "number \<Rightarrow> number \<Rightarrow> bool" where
  "num_lt (Fin x) (Fin y) = (x < y)"
| "num_lt NaN _ = False"
| "num_lt _ NaN = False"
| "num_lt NegInf NegInf = False"
| "num_lt NegInf _ = True"
| "num_lt PosInf _ = False"
| "num_lt (Fin x) PosInf = True"
| "num_lt (Fin x) NegInf = False"

text \<open>\<^verbatim>\<open>a > b\<close> is \<^verbatim>\<open>b < a\<close>.\<close>

definition num_gt :: "number \<Rightarrow> number \<Rightarrow> bool" where
  "num_gt a b = num_lt b a"

fun num_add :: "number \<Rightarrow> number \<Rightarrow> number" where
  "num_add (Fin x) (Fin y) = Fin (x + y)"
| "num_add NaN _ = NaN"
| "num_add _ NaN = NaN"
| "num_add PosInf NegInf = NaN"
| "num_add NegInf PosInf = NaN"
| "num_add PosInf _ = PosInf"
| "num_add NegInf _ = NegInf"
| "num_add (Fin x) PosInf = PosInf"
| "num_add (Fin x) NegInf = NegInf"

fun num_neg :: "number \<Rightarrow> number" where
  "num_neg (Fin x) = Fin (- x)"
| "num_neg NaN = NaN"
| "num_neg PosInf = NegInf"
| "num_neg NegInf = PosInf"

definition num_sub :: "number \<Rightarrow> number \<Rightarrow> number" where
  "num_sub a b = num_add a (num_neg b)"

text \<open>An infinity of the sign of \<open>s\<close>; NaN when \<open>s\<close> is zero.\<close>

definition inf_of_sign :: "real \<Rightarrow> number" where
  "inf_of_sign s = (if s = 0 then NaN else if 0 < s then PosInf else NegInf)"

fun num_mul :: "number \<Rightarrow> number \<Rightarrow> number" where
  "num_mul (Fin x) (Fin y) = Fin (x * y)"
| "num_mul NaN _ = NaN"
| "num_mul _ NaN = NaN"
| "num_mul PosInf (Fin y) = inf_of_sign y"
| "num_mul NegInf (Fin y) = inf_of_sign (- y)"
| "num_mul (Fin x) PosInf = inf_of_sign x"
| "num_mul (Fin x) NegInf = inf_of_sign (- x)"
| "num_mul PosInf PosInf = PosInf"
| "num_mul PosInf NegInf = NegInf"
| "num_mul NegInf PosInf = NegInf"
| "num_mul NegInf NegInf = PosInf"

text \<open>
  Division. A finite value divided by zero is an infinity of the dividend's sign (the
  zero divisors of the program are all \<open>+0\<close>), and \<open>0 / 0\<close> is NaN.
\<close>

fun num_div :: "number \<Rightarrow> number \<Rightarrow> number" where
  "num_div (Fin x) (Fin y) = (if y = 0 then inf_of_sign x else Fin (x / y))"
| "num_div NaN _ = NaN"
| "num_div _ NaN = NaN"
| "num_div PosInf (Fin y) = (if 0 \<le> y then PosInf else NegInf)"
| "num_div NegInf (Fin y) = (if 0 \<le> y then NegInf else PosInf)"
| "num_div (Fin x) PosInf = Fin 0"
| "num_div (Fin x) NegInf = Fin 0"
| "num_div PosInf _ = NaN"
| "num_div NegInf _ = NaN"

text \<open>\<^verbatim>\<open>Math.min\<close> and \<^verbatim>\<open>Math.max\<close> return NaN when an argument is NaN.\<close>

fun math_min :: "number \<Rightarrow> number \<Rightarrow> number" where
  "math_min NaN _ = NaN"
| "math_min _ NaN = NaN"
| "math_min a b = (if num_lt b a then b else a)"

fun math_max :: "number \<Rightarrow> number \<Rightarrow> number" where
  "math_max NaN _ = NaN"
| "math_max _ NaN = NaN"
| "math_max a b = (if num_lt a b then b else a)"

text \<open>Truncation toward zero of a finite value.\<close>

definition trunc :: "real \<Rightarrow> int" where
  "trunc r = (if r < 0 then \<lceil>r\<rceil> else \<lfloor>r\<rfloor>)"

text \<open>
  \<^verbatim>\<open>x | 0\<close> is the abstract operation ToInt32: NaN and the infinities give 0, a finite
  value is truncated toward zero and reduced modulo \<open>2 ^ 32\<close> into the signed range.
\<close>

fun toInt32 :: "number \<Rightarrow> int" where
  "toInt32 (Fin r) = sint (word_of_int (trunc r) :: 32 word)"
| "toInt32 _ = 0"

section \<open>Sample conversion of the PCM encoder\<close>

text \<open>
  \<^verbatim>\<open>sample = Math.max(-1, Math.min(1, channels[i][offset]));\<close>
\<close>

definition clampSample :: "number \<Rightarrow> number" where
  "clampSample x = math_max (Fin (- 1)) (math_min (Fin 1) x)"

text \<open>
  \<^verbatim>\<open>sample = (0.5 + sample < 0 ? sample * 32768 : sample * 32767) | 0;\<close>
\<close>

definition scaleSample :: "number \<Rightarrow> int" where
  "scaleSample s =
     toInt32 (if num_lt (num_add (Fin (1 / 2)) s) (Fin 0)
              then num_mul s (Fin 32768) else num_mul s (Fin 32767))"

definition encodeSample :: "number \<Rightarrow> int" where
  "encodeSample x = scaleSample (clampSample x)"

text \<open>
  \<^verbatim>\<open>view.setInt16(pos, sample, true)\<close> stores the value reduced modulo \<open>2 ^ 16\<close>.
\<close>

definition toInt16 :: "int \<Rightarrow> 16 word" where
  "toInt16 v = word_of_int v"

text \<open>
  The conversion as the specification words it, on a finite sample: clamp to
  \<open>[-1, 1]\<close>, scale by 32767 when the clamped value plus one half is non-negative and
  by 32768 otherwise, truncate toward zero.
\<close>

definition spec_clamp :: "real \<Rightarrow> real" where
  "spec_clamp r = max (- 1) (min 1 r)"

definition spec_convert :: "real \<Rightarrow> int" where
  "spec_convert r =
     trunc (if 0 \<le> spec_clamp r + 1 / 2 then spec_clamp r * 32767 else spec_clamp r * 32768)"


section \<open>The WAV writer\<close>

type_synonym byte = "8 word"

datatype error = RangeError | TypeError

text \<open>
  \<^verbatim>\<open>AudioBuffer\<close>: the sample rate in hertz, the number of frames
  (\<^verbatim>\<open>buffer.length\<close>) and the channel arrays; \<^verbatim>\<open>numberOfChannels\<close> is the number of
  channel arrays and \<^verbatim>\<open>getChannelData(i)\<close> is the \<open>i\<close>-th of them.
\<close>

record AudioBuffer =
  sampleRate :: nat
  length_buf :: nat
  channelData :: "number list list"

definition numberOfChannels :: "AudioBuffer \<Rightarrow> nat" where
  "numberOfChannels buffer = length (channelData buffer)"

text \<open>The \<^verbatim>\<open>DataView\<close> over the output buffer and the write position \<^verbatim>\<open>pos\<close>.\<close>

record wav_state =
  view :: "byte list"
  pos :: nat

definition le16 :: "16 word \<Rightarrow> byte list" where
  "le16 w = [ucast w, ucast (drop_bit 8 w)]"

definition le32 :: "32 word \<Rightarrow> byte list" where
  "le32 w = [ucast w, ucast (drop_bit 8 w), ucast (drop_bit 16 w), ucast (drop_bit 24 w)]"

text \<open>
  A \<^verbatim>\<open>DataView\<close> setter overwrites the bytes from \<open>p\<close> on and throws a
  \<^verbatim>\<open>RangeError\<close> when they do not fit in the buffer.
\<close>

definition store :: "byte list \<Rightarrow> nat \<Rightarrow> byte list \<Rightarrow> error + byte list" where
  "store v p bs =
     (if p + length bs \<le> length v then Inr (take p v @ bs @ drop (p + length bs) v)
      else Inl RangeError)"

definition thenE :: "error + 'a \<Rightarrow> ('a \<Rightarrow> error + 'b) \<Rightarrow> error + 'b" where
  "thenE r f = (case r of Inl e \<Rightarrow> Inl e | Inr x \<Rightarrow> f x)"

text \<open>
  \<^verbatim>\<open>function setUint16(data) { view.setUint16(pos, data, true); pos += 2; }\<close>
\<close>

definition setUint16 :: "int \<Rightarrow> wav_state \<Rightarrow> error + wav_state" where
  "setUint16 data s =
     thenE (store (view s) (pos s) (le16 (word_of_int data)))
       (\<lambda>v. Inr (s\<lparr>view := v, pos := pos s + 2\<rparr>))"

text \<open>
  \<^verbatim>\<open>function setUint32(data) { view.setUint32(pos, data, true); pos += 4; }\<close>
\<close>

definition setUint32 :: "int \<Rightarrow> wav_state \<Rightarrow> error + wav_state" where
  "setUint32 data s =
     thenE (store (view s) (pos s) (le32 (word_of_int data)))
       (\<lambda>v. Inr (s\<lparr>view := v, pos := pos s + 4\<rparr>))"

text \<open>
  Reading a \<^verbatim>\<open>Float32Array\<close> past its end gives \<^verbatim>\<open>undefined\<close>, which
  \<^verbatim>\<open>Math.min\<close> converts to NaN.
\<close>

definition typedArrayGet :: "number list \<Rightarrow> nat \<Rightarrow> number" where
  "typedArrayGet a k = (if k < length a then a ! k else NaN)"

text \<open>
  The body of the inner loop: convert \<^verbatim>\<open>channels[i][offset]\<close>, store it with
  \<^verbatim>\<open>view.setInt16(pos, sample, true)\<close>, advance \<^verbatim>\<open>pos\<close> by 2. Indexing a
  missing channel array throws a \<^verbatim>\<open>TypeError\<close>.
\<close>

definition writeSample :: "number list list \<Rightarrow> nat \<Rightarrow> nat \<Rightarrow> wav_state \<Rightarrow> error + wav_state" where
  "writeSample channels i offset s =
     (if i < length channels then
        thenE (store (view s) (pos s)
                 (le16 (toInt16 (encodeSample (typedArrayGet (channels ! i) offset)))))
          (\<lambda>v. Inr (s\<lparr>view := v, pos := pos s + 2\<rparr>))
      else Inl TypeError)"

text \<open>\<^verbatim>\<open>for (i = 0; i < numOfChan; i++) { ... }\<close>, from \<open>i\<close> on.\<close>

function forChannels ::
  "number list list \<Rightarrow> nat \<Rightarrow> nat \<Rightarrow> nat \<Rightarrow> wav_state \<Rightarrow> error + wav_state" where
  "forChannels channels numOfChan offset i s =
     (if i < numOfChan then
        (case writeSample channels i offset s of
           Inl e \<Rightarrow> Inl e
         | Inr s' \<Rightarrow> forChannels channels numOfChan offset (i + 1) s')
      else Inr s)"
  by pat_completeness auto
termination
  by (relation "measure (\<lambda>(channels, numOfChan, offset, i, s). numOfChan - i)") auto

declare forChannels.simps [simp del]

text \<open>
  \<^verbatim>\<open>while (pos < length) { for (...) {...} offset++; }\<close>. With no channel and
  \<^verbatim>\<open>pos < length\<close> the loop would not end, so not returning is the value \<open>None\<close>.
\<close>

partial_function (option) whileSamples ::
  "number list list \<Rightarrow> nat \<Rightarrow> nat \<Rightarrow> nat \<Rightarrow> wav_state \<Rightarrow> (error + wav_state) option" where
  "whileSamples channels numOfChan len offset s =
     (if pos s < len then
        (case forChannels channels numOfChan offset 0 s of
           Inl e \<Rightarrow> Some (Inl e)
         | Inr s' \<Rightarrow> whileSamples channels numOfChan len (offset + 1) s')
      else Some (Inr s))"

declare whileSamples.simps [code]

text \<open>The header writes of \<^verbatim>\<open>bufferToWav\<close>, in order.\<close>

definition writeHeader :: "AudioBuffer \<Rightarrow> nat \<Rightarrow> nat \<Rightarrow> wav_state \<Rightarrow> error + wav_state" where
  "writeHeader buffer numOfChan len s0 =
     thenE (setUint32 0x46464952 s0) (\<lambda>s.
     thenE (setUint32 (int len - 8) s) (\<lambda>s.
     thenE (setUint32 0x45564157 s) (\<lambda>s.
     thenE (setUint32 0x20746d66 s) (\<lambda>s.
     thenE (setUint32 16 s) (\<lambda>s.
     thenE (setUint16 1 s) (\<lambda>s.
     thenE (setUint16 (int numOfChan) s) (\<lambda>s.
     thenE (setUint32 (int (sampleRate buffer)) s) (\<lambda>s.
     thenE (setUint32 (int (sampleRate buffer) * 2 * int numOfChan) s) (\<lambda>s.
     thenE (setUint16 (int numOfChan * 2) s) (\<lambda>s.
     thenE (setUint16 16 s) (\<lambda>s.
     thenE (setUint32 0x61746164 s) (\<lambda>s.
     setUint32 (int len - int (pos s) - 4) s))))))))))))"

text \<open>
  \<^verbatim>\<open>bufferToWav\<close>: allocate \<^verbatim>\<open>length\<close> zero bytes (the allocation is taken to
  succeed), write the header, then the samples; the blob holds the bytes of the view.
  \<^verbatim>\<open>channels\<close> collects \<^verbatim>\<open>getChannelData(i)\<close> for every channel, that is
  \<open>channelData\<close>.
\<close>

definition bufferToWav :: "AudioBuffer \<Rightarrow> (error + byte list) option" where
  "bufferToWav buffer =
     (let numOfChan = numberOfChannels buffer;
          len = length_buf buffer * numOfChan * 2 + 44;
          channels = channelData buffer
      in case writeHeader buffer numOfChan len \<lparr>view = replicate len 0, pos = 0\<rparr> of
           Inl e \<Rightarrow> Some (Inl e)
         | Inr s \<Rightarrow>
             (case whileSamples channels numOfChan len 0 s of
                None \<Rightarrow> None
              | Some (Inl e) \<Rightarrow> Some (Inl e)
              | Some (Inr s') \<Rightarrow> Some (Inr (view s'))))"

text \<open>Reading the output back: little-endian fields and ASCII tags.\<close>

definition u16_at :: "byte list \<Rightarrow> nat \<Rightarrow> nat" where
  "u16_at bs p = unat (bs ! p) + 256 * unat (bs ! (p + 1))"

definition u32_at :: "byte list \<Rightarrow> nat \<Rightarrow> nat" where
  "u32_at bs p =
     unat (bs ! p) + 256 * unat (bs ! (p + 1)) + 65536 * unat (bs ! (p + 2))
       + 16777216 * unat (bs ! (p + 3))"

definition tag4 :: "byte list \<Rightarrow> nat \<Rightarrow> byte list" where
  "tag4 bs p = take 4 (drop p bs)"

definition ascii :: "string \<Rightarrow> byte list" where
  "ascii cs = map of_char cs"

text \<open>The 16-bit two's-complement sample stored at byte \<open>p\<close>.\<close>

definition s16_at :: "byte list \<Rightarrow> nat \<Rightarrow> int" where
  "s16_at bs p = sint (word_of_nat (u16_at bs p) :: 16 word)"

text \<open>
  The interleaved sample bytes: for each frame, for each channel in order, the converted
  sample as two little-endian bytes.
\<close>

definition frameBytes :: "number list list \<Rightarrow> nat \<Rightarrow> byte list" where
  "frameBytes channels f =
     concat (map (\<lambda>ch. le16 (toInt16 (encodeSample (typedArrayGet ch f)))) channels)"

definition interleaved :: "AudioBuffer \<Rightarrow> byte list" where
  "interleaved buffer =
     concat (map (frameBytes (channelData buffer)) [0..<length_buf buffer])"

text \<open>
  Auxiliary notions for the proofs: a writer state that has filled \<open>ws\<close> and has \<open>k\<close>
  zero bytes left, the two bytes of one converted sample, and the 44 header bytes.
\<close>

definition st :: "byte list \<Rightarrow> nat \<Rightarrow> wav_state" where
  "st ws k = \<lparr>view = ws @ replicate k 0, pos = length ws\<rparr>"

definition sampleBytes :: "number list \<Rightarrow> nat \<Rightarrow> byte list" where
  "sampleBytes ch f = le16 (toInt16 (encodeSample (typedArrayGet ch f)))"

definition headerBytes :: "AudioBuffer \<Rightarrow> nat \<Rightarrow> nat \<Rightarrow> byte list" where
  "headerBytes buffer numOfChan len =
     le32 0x46464952 @ le32 (word_of_int (int len - 8)) @ le32 0x45564157
     @ le32 0x20746d66 @ le32 16 @ le16 1 @ le16 (word_of_int (int numOfChan))
     @ le32 (word_of_int (int (sampleRate buffer)))
     @ le32 (word_of_int (int (sampleRate buffer) * 2 * int numOfChan))
     @ le16 (word_of_int (int numOfChan * 2)) @ le16 16
     @ le32 0x61746164 @ le32 (word_of_int (int len - 44))"

section \<open>The duration estimator\<close>

text \<open>A string is its sequence of UTF-16 code units.\<close>

type_synonym jschar = "16 word"
type_synonym jsstring = "jschar list"

text \<open>
  The class \<^verbatim>\<open>\s\<close> of a regular expression: the white space and line terminator code
  points.
\<close>

definition isWhiteSpace :: "jschar \<Rightarrow> bool" where
  "isWhiteSpace c =
     (c \<in> {0x9, 0xA, 0xB, 0xC, 0xD, 0x20, 0xA0, 0x1680, 0x2028, 0x2029, 0x202F, 0x205F,
            0x3000, 0xFEFF}
      \<or> (0x2000 \<le> c \<and> c \<le> 0x200A))"

text \<open>
  \<^verbatim>\<open>s.split(/\s+/)\<close>: every maximal run of white space separates two tokens, so a
  string that starts or ends with white space has an empty first or last token, and the
  empty string gives one empty token. \<open>tok\<close> is the token read so far.
\<close>

function split_from :: "jsstring \<Rightarrow> jsstring \<Rightarrow> jsstring list" where
  "split_from tok [] = [tok]"
| "split_from tok (c # cs) =
     (if isWhiteSpace c then tok # split_from [] (dropWhile isWhiteSpace cs)
      else split_from (tok @ [c]) cs)"
  by pat_completeness auto
termination
  by (relation "measure (\<lambda>(tok, s). length s)") (auto simp: length_dropWhile_le less_Suc_eq_le)

definition split_ws :: "jsstring \<Rightarrow> jsstring list" where
  "split_ws s = split_from [] s"

text \<open>\<^verbatim>\<open>const wordCount = slide.narration.split(/\s+/).length;\<close>\<close>

definition wordCount :: "jsstring \<Rightarrow> nat" where
  "wordCount narration = length (split_ws narration)"



section \<open>The frame compositor\<close>

record draw_rect =
  dx :: number
  dy :: number
  drawWidth :: number
  drawHeight :: number

text \<open>
  The rectangle \<^verbatim>\<open>renderLoop\<close> passes to \<^verbatim>\<open>ctx.drawImage\<close>, for a canvas of
  \<open>cw \<times> ch\<close> pixels and an image of \<open>iw \<times> ih\<close> pixels.
\<close>

definition canvasAspect :: "nat \<Rightarrow> nat \<Rightarrow> number" where
  "canvasAspect cw ch = num_div (Fin (real cw)) (Fin (real ch))"

definition imgAspect :: "nat \<Rightarrow> nat \<Rightarrow> number" where
  "imgAspect iw ih = num_div (Fin (real iw)) (Fin (real ih))"

definition drawSize :: "nat \<Rightarrow> nat \<Rightarrow> nat \<Rightarrow> nat \<Rightarrow> number \<times> number" where
  "drawSize cw ch iw ih =
     (if num_gt (canvasAspect cw ch) (imgAspect iw ih) then
        (let drawHeight = Fin (real ch);
             drawWidth = num_mul drawHeight (imgAspect iw ih)
         in (drawWidth, drawHeight))
      else
        (let drawWidth = Fin (real cw);
             drawHeight = num_div drawWidth (imgAspect iw ih)
         in (drawWidth, drawHeight)))"

definition drawRect :: "nat \<Rightarrow> nat \<Rightarrow> nat \<Rightarrow> nat \<Rightarrow> draw_rect" where
  "drawRect cw ch iw ih =
     (let (w, h) = drawSize cw ch iw ih
      in \<lparr>dx = num_div (num_sub (Fin (real cw)) w) (Fin 2),
          dy = num_div (num_sub (Fin (real ch)) h) (Fin 2),
          drawWidth = w, drawHeight = h\<rparr>)"

text \<open>
  The specification's wording of the centring property: exactly one of the two offsets
  is zero.
\<close>

definition exactlyOneOffsetZero :: "draw_rect \<Rightarrow> bool" where
  "exactlyOneOffsetZero r = ((dx r = Fin 0) \<noteq> (dy r = Fin 0))"

section \<open>The export slide show\<close>












section \<open>The presentation viewer\<close>

text \<open>
  The component state of \<^verbatim>\<open>PresentationViewer\<close>: the two state variables, the ref that
  holds the timeout handle, the \<^verbatim>\<open>ended\<close> flag of the audio element, and the host's
  timer table. A pending timeout is recorded with the slide index it was created at, and
  two counters observe the run: the executions of the scheduled advance, and those among
  them that ran when the current index was no longer the one the timeout was created at.
\<close>

record viewer =
  slidesLength :: nat
  currentSlideIndex_v :: int
  isPlaying :: bool
  slideTimeoutRef :: "nat option"
  audioEnded :: bool
  timers_v :: "(nat \<times> int) list"
  nextTimerId_v :: nat
  firings :: nat
  staleFirings :: nat

text \<open>
  \<^verbatim>\<open>if (slideTimeoutRef.current) { clearTimeout(slideTimeoutRef.current); }\<close>: a null
  or zero handle is falsy.
\<close>

definition clearRef :: "viewer \<Rightarrow> viewer" where
  "clearRef s =
     (case slideTimeoutRef s of
        None \<Rightarrow> s
      | Some i \<Rightarrow> if i = 0 then s else s\<lparr>timers_v := filter (\<lambda>t. fst t \<noteq> i) (timers_v s)\<rparr>)"

text \<open>
  \<^verbatim>\<open>scheduleNextSlide\<close>: clear the handle in the ref; before the last slide create a
  timeout and keep its handle, otherwise \<^verbatim>\<open>setIsPlaying(false)\<close>.
\<close>

definition scheduleNextSlide :: "viewer \<Rightarrow> viewer" where
  "scheduleNextSlide s =
     (let s1 = clearRef s
      in if currentSlideIndex_v s1 < int (slidesLength s1) - 1 then
           s1\<lparr>slideTimeoutRef := Some (nextTimerId_v s1),
               timers_v := timers_v s1 @ [(nextTimerId_v s1, currentSlideIndex_v s1)],
               nextTimerId_v := nextTimerId_v s1 + 1\<rparr>
         else s1\<lparr>isPlaying := False\<rparr>)"

text \<open>
  The effect on \<^verbatim>\<open>[isPlaying, currentSlideIndex, scheduleNextSlide]\<close>: the cleanup of
  the previous run, then the body.
\<close>

definition runEffect :: "viewer \<Rightarrow> viewer" where
  "runEffect s =
     (let s1 = clearRef s
      in if isPlaying s1 then scheduleNextSlide s1 else clearRef s1)"

text \<open>
  The effect runs again when a dependency differs from the previous render.
  \<^verbatim>\<open>scheduleNextSlide\<close> is a new function when \<^verbatim>\<open>currentSlideIndex\<close>,
  \<^verbatim>\<open>slides.length\<close> or \<^verbatim>\<open>slideDurations\<close> change; the last two are fixed after the
  component has mounted.
\<close>

definition depsChanged :: "viewer \<Rightarrow> viewer \<Rightarrow> bool" where
  "depsChanged a b =
     (isPlaying a \<noteq> isPlaying b \<or> currentSlideIndex_v a \<noteq> currentSlideIndex_v b)"

text \<open>
  Rendering after a handler: the state updates of the handler are applied and the effect
  runs (cleanup first) before the next event is handled; a state update made by the
  effect renders again. \<open>k\<close> bounds the number of renders.
\<close>

fun settle :: "nat \<Rightarrow> viewer \<Rightarrow> viewer \<Rightarrow> viewer" where
  "settle 0 prev cur = cur"
| "settle (Suc k) prev cur =
     (if depsChanged prev cur then settle k cur (runEffect cur) else cur)"










section \<open>Failure of an export\<close>


















section \<open>Properties of the sample conversion\<close>

lemma clampSample_Fin: "clampSample (Fin r) = Fin (spec_clamp r)"
  by (auto simp: clampSample_def spec_clamp_def)

lemma spec_clamp_range: "- 1 \<le> spec_clamp r \<and> spec_clamp r \<le> 1"
  by (auto simp: spec_clamp_def)

lemma trunc_bounds:
  assumes "- 32768 \<le> r" and "r \<le> 32767"
  shows "- 32768 \<le> trunc r \<and> trunc r \<le> 32767"
  using assms unfolding trunc_def
  by (auto simp: le_floor_iff ceiling_le_iff floor_le_iff le_ceiling_iff)

lemma sint32_small:
  assumes "- 32768 \<le> k" and "k \<le> 32767"
  shows "sint (word_of_int k :: 32 word) = k"
  using assms by (simp add: sint_sbintrunc' signed_take_bit_int_eq_self)

lemma sint16_small:
  assumes "- 32768 \<le> k" and "k \<le> 32767"
  shows "sint (word_of_int k :: 16 word) = k"
  using assms by (simp add: sint_sbintrunc' signed_take_bit_int_eq_self)

lemma scaled_range:
  assumes "- 1 \<le> c" and "c \<le> (1::real)"
  shows "- 32768 \<le> (if 0 \<le> c + 1 / 2 then c * 32767 else c * 32768)
       \<and> (if 0 \<le> c + 1 / 2 then c * 32767 else c * 32768) \<le> 32767"
  using assms by auto

lemma spec_convert_range: "- 32768 \<le> spec_convert r \<and> spec_convert r \<le> 32767"
  unfolding spec_convert_def
  using trunc_bounds scaled_range spec_clamp_range by presburger

lemma scaleSample_Fin:
  assumes "- 1 \<le> c" and "c \<le> 1"
  shows "scaleSample (Fin c) = trunc (if 0 \<le> c + 1 / 2 then c * 32767 else c * 32768)"
proof -
  let ?v = "if 0 \<le> c + 1 / 2 then c * 32767 else c * 32768"
  have r: "- 32768 \<le> trunc ?v \<and> trunc ?v \<le> 32767"
    using trunc_bounds scaled_range assms by presburger
  have "scaleSample (Fin c) = sint (word_of_int (trunc ?v) :: 32 word)"
    by (simp add: scaleSample_def not_less)
  also have "\<dots> = trunc ?v"
    using r by (intro sint32_small) auto
  finally show ?thesis .
qed

lemma encodeSample_Fin: "encodeSample (Fin r) = spec_convert r"
  by (simp add: encodeSample_def clampSample_Fin scaleSample_Fin spec_clamp_range
      spec_convert_def)

lemma encodeSample_special:
  "encodeSample NaN = 0" "encodeSample PosInf = 32767" "encodeSample NegInf = - 32768"
  by (simp_all add: encodeSample_def clampSample_def scaleSample_def trunc_def)

lemma spec_convert_values:
  "spec_convert 1 = 32767" "spec_convert 0 = 0" "spec_convert (- 1) = - 32768"
  by (simp_all add: spec_convert_def spec_clamp_def trunc_def)

lemma spec_convert_above: "1 \<le> r \<Longrightarrow> spec_convert r = 32767"
  by (simp add: spec_convert_def spec_clamp_def trunc_def)

lemma spec_convert_below: "r \<le> - 1 \<Longrightarrow> spec_convert r = - 32768"
  by (simp add: spec_convert_def spec_clamp_def trunc_def)

lemma encodeSample_range: "- 32768 \<le> encodeSample x \<and> encodeSample x \<le> 32767"
  using spec_convert_range by (cases x) (simp_all add: encodeSample_special encodeSample_Fin)

text \<open>
  C10. The conversion is defined on every sample value and its result fits 16 bits: it
  lies in \<open>[-32768, 32767]\<close> and the 16-bit store keeps it unchanged. A value above 1
  (also \<open>+\<infinity>\<close>) encodes as 1.0 does, a value below -1 (also \<open>-\<infinity>\<close>) as -1.0 does,
  and NaN encodes to 0.
\<close>

theorem encodeSample_total:
  "- 32768 \<le> encodeSample x \<and> encodeSample x \<le> 32767
   \<and> sint (toInt16 (encodeSample x)) = encodeSample x
   \<and> (num_lt (Fin 1) x \<longrightarrow> encodeSample x = encodeSample (Fin 1))
   \<and> (num_lt x (Fin (- 1)) \<longrightarrow> encodeSample x = encodeSample (Fin (- 1)))
   \<and> encodeSample (Fin 1) = 32767
   \<and> encodeSample (Fin (- 1)) = - 32768
   \<and> encodeSample NaN = 0"
proof -
  have r: "- 32768 \<le> encodeSample x \<and> encodeSample x \<le> 32767"
    by (rule encodeSample_range)
  have s: "sint (toInt16 (encodeSample x)) = encodeSample x"
    using r by (simp add: toInt16_def sint16_small)
  have hi: "num_lt (Fin 1) x \<longrightarrow> encodeSample x = encodeSample (Fin 1)"
    by (cases x)
      (simp_all add: encodeSample_special encodeSample_Fin spec_convert_values spec_convert_above)
  have lo: "num_lt x (Fin (- 1)) \<longrightarrow> encodeSample x = encodeSample (Fin (- 1))"
    by (cases x)
      (simp_all add: encodeSample_special encodeSample_Fin spec_convert_values spec_convert_below)
  show ?thesis
    using r s hi lo by (simp add: encodeSample_special encodeSample_Fin spec_convert_values)
qed

theorem encodeSample_total_witness:
  "num_lt (Fin 1) (Fin 5) \<and> encodeSample (Fin 5) = 32767
   \<and> num_lt (Fin 1) PosInf \<and> encodeSample PosInf = 32767
   \<and> num_lt (Fin (- 7 / 2)) (Fin (- 1)) \<and> encodeSample (Fin (- 7 / 2)) = - 32768
   \<and> num_lt NegInf (Fin (- 1)) \<and> encodeSample NegInf = - 32768"
  using encodeSample_total [of "Fin 5"] encodeSample_total [of PosInf]
    encodeSample_total [of "Fin (- 7 / 2)"] encodeSample_total [of NegInf]
  by simp

section \<open>Properties of the WAV writer\<close>

lemma pos_st: "pos (st ws k) = length ws"
  by (simp add: st_def)

lemma view_st: "view (st ws k) = ws @ replicate k 0"
  by (simp add: st_def)

lemma st_Nil: "\<lparr>view = replicate len 0, pos = 0\<rparr> = st [] len"
  by (simp add: st_def)

lemma store_st:
  assumes "length bs \<le> k"
  shows "store (ws @ replicate k 0) (length ws) bs = Inr ((ws @ bs) @ replicate (k - length bs) 0)"
  using assms by (simp add: store_def)

lemma length_le16: "length (le16 w) = 2"
  by (simp add: le16_def)

lemma length_le32: "length (le32 w) = 4"
  by (simp add: le32_def)

lemma setUint32_st:
  assumes "4 \<le> k"
  shows "setUint32 d (st ws k) = Inr (st (ws @ le32 (word_of_int d)) (k - 4))"
  using assms store_st [of "le32 (word_of_int d)" k ws]
  by (simp add: setUint32_def thenE_def st_def length_le32)

lemma setUint16_st:
  assumes "2 \<le> k"
  shows "setUint16 d (st ws k) = Inr (st (ws @ le16 (word_of_int d)) (k - 2))"
  using assms store_st [of "le16 (word_of_int d)" k ws]
  by (simp add: setUint16_def thenE_def st_def length_le16)

lemma writeSample_st:
  assumes "i < length channels" and "2 \<le> k"
  shows "writeSample channels i offset (st ws k)
         = Inr (st (ws @ sampleBytes (channels ! i) offset) (k - 2))"
  using assms store_st [of "sampleBytes (channels ! i) offset" k ws]
  by (simp add: writeSample_def thenE_def st_def length_le16 sampleBytes_def)

text \<open>The inner loop appends the samples of the channels from \<open>i\<close> on.\<close>

lemma forChannels_st:
  assumes "i \<le> length channels" and "2 * (length channels - i) \<le> k"
  shows "forChannels channels (length channels) offset i (st ws k)
         = Inr (st (ws @ concat (map (\<lambda>ch. sampleBytes ch offset) (drop i channels)))
                  (k - 2 * (length channels - i)))"
  using assms
proof (induction "length channels - i" arbitrary: i ws k)
  case 0
  then show ?case by (subst forChannels.simps) simp
next
  case (Suc n)
  then have lt: "i < length channels" and k2: "2 \<le> k" by auto
  have step: "forChannels channels (length channels) offset i (st ws k)
      = forChannels channels (length channels) offset (i + 1)
          (st (ws @ sampleBytes (channels ! i) offset) (k - 2))"
    using lt k2 by (subst forChannels.simps) (simp add: writeSample_st)
  have ih: "forChannels channels (length channels) offset (i + 1)
          (st (ws @ sampleBytes (channels ! i) offset) (k - 2))
       = Inr (st ((ws @ sampleBytes (channels ! i) offset)
                    @ concat (map (\<lambda>ch. sampleBytes ch offset) (drop (i + 1) channels)))
                 (k - 2 - 2 * (length channels - (i + 1))))"
    using Suc.prems Suc.hyps(2) lt by (intro Suc.hyps(1)) auto
  have d: "drop i channels = channels ! i # drop (i + 1) channels"
    using lt by (simp add: Cons_nth_drop_Suc)
  have a: "k - 2 - 2 * (length channels - (i + 1)) = k - 2 * (length channels - i)"
    using lt by auto
  show ?case unfolding step ih d a by simp
qed

lemma frameBytes_sampleBytes:
  "frameBytes channels f = concat (map (\<lambda>ch. sampleBytes ch f) channels)"
  by (simp add: frameBytes_def sampleBytes_def)

lemma length_frameBytes: "length (frameBytes channels f) = 2 * length channels"
  by (induction channels) (simp_all add: frameBytes_def length_le16)

lemma forChannels_frame:
  assumes "2 * length channels \<le> k"
  shows "forChannels channels (length channels) offset 0 (st ws k)
         = Inr (st (ws @ frameBytes channels offset) (k - 2 * length channels))"
  using forChannels_st [of 0 channels k offset ws] assms
  by (simp add: frameBytes_sampleBytes)

text \<open>
  The outer loop returns: with at least one channel and room for \<open>m\<close> whole frames it
  appends \<open>m\<close> frames and stops with the buffer full.
\<close>

lemma whileSamples_st:
  assumes "0 < length channels" and "length ws + m * (2 * length channels) = len"
  shows "whileSamples channels (length channels) len offset (st ws (m * (2 * length channels)))
         = Some (Inr (st (ws @ concat (map (frameBytes channels) [offset..<offset + m])) 0))"
  using assms
proof (induction m arbitrary: ws offset)
  case 0
  then show ?case by (subst whileSamples.simps) (simp add: pos_st)
next
  case (Suc m)
  let ?c = "2 * length channels"
  have lt: "pos (st ws (Suc m * ?c)) < len"
    using Suc.prems by (cases channels) (auto simp: pos_st)
  have fr: "forChannels channels (length channels) offset 0 (st ws (Suc m * ?c))
            = Inr (st (ws @ frameBytes channels offset) (m * ?c))"
    using forChannels_frame [of channels "Suc m * ?c" offset ws] by simp
  have ih: "whileSamples channels (length channels) len (offset + 1)
              (st (ws @ frameBytes channels offset) (m * ?c))
            = Some (Inr (st ((ws @ frameBytes channels offset)
                 @ concat (map (frameBytes channels) [offset + 1..<offset + 1 + m])) 0))"
    using Suc.prems by (intro Suc.IH) (simp_all add: length_frameBytes)
  have u: "[offset..<offset + Suc m] = offset # [offset + 1..<offset + 1 + m]"
    by (simp add: upt_conv_Cons)
  have "whileSamples channels (length channels) len offset (st ws (Suc m * ?c))
        = whileSamples channels (length channels) len (offset + 1)
              (st (ws @ frameBytes channels offset) (m * ?c))"
    by (subst whileSamples.simps) (simp only: lt fr if_True sum.case)
  then show ?case
    unfolding ih u by simp
qed

lemma whileSamples_done:
  assumes "length ws = len"
  shows "whileSamples channels n len offset (st ws 0) = Some (Inr (st ws 0))"
  using assms by (subst whileSamples.simps) (simp add: pos_st)

lemma length_headerBytes: "length (headerBytes buffer numOfChan len) = 44"
  by (simp add: headerBytes_def length_le16 length_le32)

lemma writeHeader_st:
  assumes "44 \<le> len"
  shows "writeHeader buffer numOfChan len (st [] len)
         = Inr (st (headerBytes buffer numOfChan len) (len - 44))"
  using assms
  by (simp add: writeHeader_def thenE_def setUint32_st setUint16_st pos_st
      length_le16 length_le32 headerBytes_def)

lemma interleaved_no_channels:
  assumes "channelData buffer = []"
  shows "interleaved buffer = []"
  using assms by (simp add: interleaved_def frameBytes_def)

lemma length_interleaved:
  "length (interleaved buffer) = length_buf buffer * numberOfChannels buffer * 2"
  by (simp add: interleaved_def length_concat comp_def length_frameBytes sum_list_triv
      numberOfChannels_def)

text \<open>The encoder returns, and its output is the header followed by the sample bytes.\<close>

lemma bufferToWav_bytes:
  "bufferToWav buffer
   = Some (Inr (headerBytes buffer (numberOfChannels buffer)
                  (length_buf buffer * numberOfChannels buffer * 2 + 44) @ interleaved buffer))"
proof -
  let ?nc = "numberOfChannels buffer"
  let ?len = "length_buf buffer * ?nc * 2 + 44"
  let ?h = "headerBytes buffer ?nc ?len"
  have hd: "writeHeader buffer ?nc ?len \<lparr>view = replicate ?len 0, pos = 0\<rparr>
            = Inr (st ?h (length_buf buffer * ?nc * 2))"
    unfolding st_Nil using writeHeader_st [of ?len buffer ?nc] by simp
  have lp: "whileSamples (channelData buffer) ?nc ?len 0 (st ?h (length_buf buffer * ?nc * 2))
            = Some (Inr (st (?h @ interleaved buffer) 0))"
  proof (cases "channelData buffer = []")
    case True
    then have z: "?nc = 0" by (simp add: numberOfChannels_def)
    show ?thesis
      using whileSamples_done [of ?h ?len "channelData buffer" ?nc 0]
      by (simp add: z length_headerBytes interleaved_no_channels True)
  next
    case False
    then have "0 < length (channelData buffer)" by simp
    moreover have "length ?h + length_buf buffer * (2 * length (channelData buffer)) = ?len"
      by (simp add: length_headerBytes numberOfChannels_def)
    ultimately have "whileSamples (channelData buffer) (length (channelData buffer)) ?len 0
        (st ?h (length_buf buffer * (2 * length (channelData buffer))))
      = Some (Inr (st (?h @ concat (map (frameBytes (channelData buffer))
                                      [0..<0 + length_buf buffer])) 0))"
      by (rule whileSamples_st)
    then show ?thesis
      by (simp add: numberOfChannels_def interleaved_def ac_simps)
  qed
  show ?thesis
    unfolding bufferToWav_def Let_def hd sum.case lp option.case
    by (simp add: view_st)
qed

subsection \<open>Reading the fields back\<close>

lemma unat_byte0: "unat (ucast (w :: 32 word) :: byte) = unat w mod 256"
  by (simp add: unsigned_ucast_eq take_bit_eq_mod)

lemma unat16_byte0: "unat (ucast (w :: 16 word) :: byte) = unat w mod 256"
  by (simp add: unsigned_ucast_eq take_bit_eq_mod)

lemma unat_drop32: "unat (drop_bit n (w :: 32 word)) = unat w div 2 ^ n"
  unfolding unat_drop_bit_eq by (simp add: drop_bit_eq_div)

lemma unat_drop16: "unat (drop_bit n (w :: 16 word)) = unat w div 2 ^ n"
  unfolding unat_drop_bit_eq by (simp add: drop_bit_eq_div)

lemma mod_split: "(n::nat) mod (b * c) = n mod b + b * (n div b mod c)"
  by (simp add: mod_mult2_eq)

lemma bytes4:
  fixes n :: nat
  assumes "n < b * (b * (b * b))"
  shows "n mod b + b * (n div b mod b) + (b * b) * (n div (b * b) mod b)
         + (b * b * b) * (n div (b * b * b) mod b) = n"
proof -
  have "n = n mod (b * (b * (b * b)))" using assms by simp
  also have "\<dots> = n mod b + b * (n div b mod (b * (b * b)))" by (rule mod_split)
  also have "n div b mod (b * (b * b)) = n div b mod b + b * (n div b div b mod (b * b))"
    by (rule mod_split)
  also have "n div b div b mod (b * b) = n div b div b mod b + b * (n div b div b div b mod b)"
    by (rule mod_split)
  also have "n div b div b div b mod b = n div b div b div b"
    using assms by (simp add: less_mult_imp_div_less mult.commute)
  finally have h: "n mod b + b * (n div b mod b + b * (n div b div b mod b + b * (n div b div b div b))) = n"
    by simp
  have l: "n div b div b div b mod b = n div b div b div b"
    using assms by (simp add: less_mult_imp_div_less mult.commute)
  show ?thesis
    using h by (simp only: div_mult2_eq l distrib_left mult.assoc add.assoc)
qed

lemma bytes2:
  fixes n :: nat
  assumes "n < b * b"
  shows "n mod b + b * (n div b mod b) = n"
  using assms by (metis mod_less mod_split)

lemma bytes4_256:
  fixes n :: nat
  assumes "n < 4294967296"
  shows "n mod 256 + 256 * (n div 256 mod 256) + 65536 * (n div 65536 mod 256)
         + 16777216 * (n div 16777216 mod 256) = n"
  using bytes4 [of n 256] assms by simp

lemma bytes2_256:
  fixes n :: nat
  assumes "n < 65536"
  shows "n mod 256 + 256 * (n div 256 mod 256) = n"
  using bytes2 [of n 256] assms by simp

lemma u32_at_le32:
  assumes "length pre = p"
  shows "u32_at (pre @ le32 w @ post) p = unat w"
proof -
  have b: "unat w < 4294967296" using unsigned_less [of w, where 'a=nat] by simp
  have n: "(pre @ le32 w @ post) ! p = ucast w"
     "(pre @ le32 w @ post) ! (p + 1) = ucast (drop_bit 8 w)"
     "(pre @ le32 w @ post) ! (p + 2) = ucast (drop_bit 16 w)"
     "(pre @ le32 w @ post) ! (p + 3) = ucast (drop_bit 24 w)"
    using assms by (simp_all add: le32_def nth_append)
  show ?thesis
    unfolding u32_at_def n unat_byte0 unat_drop32
    using bytes4_256 [OF b] b by (simp add: div_less_iff_less_mult)
qed

lemma u16_at_le16:
  assumes "length pre = p"
  shows "u16_at (pre @ le16 w @ post) p = unat w"
proof -
  have b: "unat w < 65536" using unsigned_less [of w, where 'a=nat] by simp
  have n: "(pre @ le16 w @ post) ! p = ucast w"
     "(pre @ le16 w @ post) ! (p + 1) = ucast (drop_bit 8 w)"
    using assms by (simp_all add: le16_def nth_append)
  show ?thesis
    unfolding u16_at_def n unat16_byte0 unat_drop16
    using bytes2_256 [OF b] b by (simp add: div_less_iff_less_mult)
qed

lemma u32_at_skip: "length pre \<le> p \<Longrightarrow> u32_at (pre @ xs) p = u32_at xs (p - length pre)"
  by (simp add: u32_at_def nth_append Suc_diff_le)

lemma u16_at_skip: "length pre \<le> p \<Longrightarrow> u16_at (pre @ xs) p = u16_at xs (p - length pre)"
  by (simp add: u16_at_def nth_append Suc_diff_le)

lemma tag4_skip: "length pre \<le> p \<Longrightarrow> tag4 (pre @ xs) p = tag4 xs (p - length pre)"
  by (simp add: tag4_def)

lemma u32_at_head: "u32_at (le32 w @ post) 0 = unat w"
  using u32_at_le32 [of "[]" 0 w post] by simp

lemma u16_at_head: "u16_at (le16 w @ post) 0 = unat w"
  using u16_at_le16 [of "[]" 0 w post] by simp

lemma tag4_head:
  "tag4 (le32 0x46464952 @ post) 0 = ascii ''RIFF''"
  "tag4 (le32 0x45564157 @ post) 0 = ascii ''WAVE''"
  "tag4 (le32 0x20746d66 @ post) 0 = ascii ''fmt ''"
  "tag4 (le32 0x61746164 @ post) 0 = ascii ''data''"
  by (simp_all add: tag4_def le32_def ascii_def)

lemmas header_reads = u32_at_skip u16_at_skip tag4_skip u32_at_head u16_at_head tag4_head
  length_le16 length_le32

lemma header_fields:
  fixes buffer nc len rest
  defines "out \<equiv> headerBytes buffer nc len @ rest"
  assumes "44 \<le> len"
  shows "tag4 out 0 = ascii ''RIFF''"
    and "u32_at out 4 = (len - 8) mod 4294967296"
    and "tag4 out 8 = ascii ''WAVE''"
    and "tag4 out 12 = ascii ''fmt ''"
    and "u32_at out 16 = 16"
    and "u16_at out 20 = 1"
    and "u16_at out 22 = nc mod 65536"
    and "u32_at out 24 = sampleRate buffer mod 4294967296"
    and "u32_at out 28 = (sampleRate buffer * nc * 2) mod 4294967296"
    and "u16_at out 32 = (nc * 2) mod 65536"
    and "u16_at out 34 = 16"
    and "tag4 out 36 = ascii ''data''"
    and "u32_at out 40 = (len - 44) mod 4294967296"
proof -
  have a: "int len - 8 = int (len - 8)" "int len - 44 = int (len - 44)"
    using assms(2) by auto
  have b: "int (sampleRate buffer) * 2 * int nc = int (sampleRate buffer * nc * 2)"
     "int nc * 2 = int (nc * 2)" by simp_all
  show "tag4 out 0 = ascii ''RIFF''"
    by (simp add: out_def headerBytes_def header_reads)
  show "u32_at out 4 = (len - 8) mod 4294967296"
    unfolding out_def headerBytes_def a b
    by (simp add: header_reads unat_of_nat del: of_nat_diff)
  show "tag4 out 8 = ascii ''WAVE''"
    by (simp add: out_def headerBytes_def header_reads)
  show "tag4 out 12 = ascii ''fmt ''"
    by (simp add: out_def headerBytes_def header_reads)
  show "u32_at out 16 = 16"
    by (simp add: out_def headerBytes_def header_reads)
  show "u16_at out 20 = 1"
    by (simp add: out_def headerBytes_def header_reads)
  show "u16_at out 22 = nc mod 65536"
    by (simp add: out_def headerBytes_def header_reads unat_of_nat)
  show "u32_at out 24 = sampleRate buffer mod 4294967296"
    by (simp add: out_def headerBytes_def header_reads unat_of_nat)
  show "u32_at out 28 = (sampleRate buffer * nc * 2) mod 4294967296"
    unfolding out_def headerBytes_def a b
    by (simp add: header_reads unat_of_nat del: of_nat_mult of_nat_diff)
  show "u16_at out 32 = (nc * 2) mod 65536"
    unfolding out_def headerBytes_def a b
    by (simp add: header_reads unat_of_nat del: of_nat_mult of_nat_diff)
  show "u16_at out 34 = 16"
    by (simp add: out_def headerBytes_def header_reads)
  show "tag4 out 36 = ascii ''data''"
    by (simp add: out_def headerBytes_def header_reads)
  show "u32_at out 40 = (len - 44) mod 4294967296"
    unfolding out_def headerBytes_def a b
    by (simp add: header_reads unat_of_nat del: of_nat_diff)
qed

text \<open>
  C2. For every audio buffer the encoder returns a byte sequence of length
  \<open>44 + frameCount * channelCount * 2\<close>. Read back little-endian, it starts with the tag
  RIFF, the total length minus 8, the tags WAVE and \<open>fmt \<close>, the chunk length 16, the
  format 1, the channel count, the sample rate, the byte rate
  \<open>sampleRate * channelCount * 2\<close>, the block alignment \<open>channelCount * 2\<close>, 16 bits per
  sample, the tag data and the data length \<open>frameCount * channelCount * 2\<close>; the
  interleaved samples follow from byte 44. A 32-bit field holds its value modulo
  \<open>2 ^ 32\<close> and a 16-bit field modulo \<open>2 ^ 16\<close>, which is the value itself whenever it
  fits the field.
\<close>

theorem bufferToWav_layout:
  "\<exists>out. bufferToWav buffer = Some (Inr out)
     \<and> length out = 44 + length_buf buffer * numberOfChannels buffer * 2
     \<and> tag4 out 0 = ascii ''RIFF''
     \<and> u32_at out 4 = (length out - 8) mod 2 ^ 32
     \<and> tag4 out 8 = ascii ''WAVE''
     \<and> tag4 out 12 = ascii ''fmt ''
     \<and> u32_at out 16 = 16
     \<and> u16_at out 20 = 1
     \<and> u16_at out 22 = numberOfChannels buffer mod 2 ^ 16
     \<and> u32_at out 24 = sampleRate buffer mod 2 ^ 32
     \<and> u32_at out 28 = (sampleRate buffer * numberOfChannels buffer * 2) mod 2 ^ 32
     \<and> u16_at out 32 = (numberOfChannels buffer * 2) mod 2 ^ 16
     \<and> u16_at out 34 = 16
     \<and> tag4 out 36 = ascii ''data''
     \<and> u32_at out 40 = (length_buf buffer * numberOfChannels buffer * 2) mod 2 ^ 32
     \<and> drop 44 out = interleaved buffer"
proof -
  let ?nc = "numberOfChannels buffer"
  let ?len = "length_buf buffer * ?nc * 2 + 44"
  let ?out = "headerBytes buffer ?nc ?len @ interleaved buffer"
  have l: "44 \<le> ?len" by simp
  have n: "length ?out = 44 + length_buf buffer * ?nc * 2"
    by (simp add: length_headerBytes length_interleaved)
  have d: "drop 44 ?out = interleaved buffer"
    by (simp add: length_headerBytes)
  have f2: "u32_at ?out 4 = (length ?out - 8) mod 2 ^ 32"
    using header_fields(2) [OF l, of buffer ?nc "interleaved buffer"] n by simp
  have f7: "u16_at ?out 22 = ?nc mod 2 ^ 16"
    using header_fields(7) [OF l, of buffer ?nc "interleaved buffer"] by simp
  have f8: "u32_at ?out 24 = sampleRate buffer mod 2 ^ 32"
    using header_fields(8) [OF l, of buffer ?nc "interleaved buffer"] by simp
  have f9: "u32_at ?out 28 = (sampleRate buffer * ?nc * 2) mod 2 ^ 32"
    using header_fields(9) [OF l, of buffer ?nc "interleaved buffer"] by simp
  have f10: "u16_at ?out 32 = (?nc * 2) mod 2 ^ 16"
    using header_fields(10) [OF l, of buffer ?nc "interleaved buffer"] by simp
  have f13: "u32_at ?out 40 = (length_buf buffer * ?nc * 2) mod 2 ^ 32"
    using header_fields(13) [OF l, of buffer ?nc "interleaved buffer"] by simp
  show ?thesis
    apply (rule exI [of _ ?out])
    apply (intro conjI)
                  apply (rule bufferToWav_bytes)
                 apply (rule n)
                apply (rule header_fields(1) [OF l])
               apply (rule f2)
              apply (rule header_fields(3) [OF l])
             apply (rule header_fields(4) [OF l])
            apply (rule header_fields(5) [OF l])
           apply (rule header_fields(6) [OF l])
          apply (rule f7)
         apply (rule f8)
        apply (rule f9)
       apply (rule f10)
      apply (rule header_fields(11) [OF l])
     apply (rule header_fields(12) [OF l])
    apply (rule f13)
    apply (rule d)
    done
qed

theorem bufferToWav_layout_witness:
  "\<exists>out. bufferToWav \<lparr>sampleRate = 24000, length_buf = 2,
                        channelData = [[Fin 1, Fin (- 1)], [Fin 0, Fin (1 / 2)]]\<rparr> = Some (Inr out)
     \<and> length out = 52 \<and> u32_at out 4 = 44 \<and> u16_at out 22 = 2 \<and> u32_at out 24 = 24000
     \<and> u32_at out 28 = 96000 \<and> u16_at out 32 = 4 \<and> u32_at out 40 = 8"
  using bufferToWav_layout [of "\<lparr>sampleRate = 24000, length_buf = 2,
                        channelData = [[Fin 1, Fin (- 1)], [Fin 0, Fin (1 / 2)]]\<rparr>"]
  by (auto simp: numberOfChannels_def)

subsection \<open>The samples in the output\<close>

lemma concat_nth_chunk:
  assumes "\<forall>x\<in>set xss. length x = k" and "i < length xss" and "j < k"
  shows "concat xss ! (i * k + j) = xss ! i ! j"
  using assms
proof (induction xss arbitrary: i)
  case Nil
  then show ?case by simp
next
  case (Cons x xss)
  show ?case
  proof (cases i)
    case 0
    then show ?thesis using Cons.prems by (simp add: nth_append)
  next
    case (Suc m)
    then have "concat xss ! (m * k + j) = xss ! m ! j"
      using Cons.prems by (intro Cons.IH) auto
    moreover have "length x = k" using Cons.prems(1) by simp
    ultimately show ?thesis using Suc by (simp add: nth_append)
  qed
qed

lemma length_sampleBytes: "length (sampleBytes ch f) = 2"
  by (simp add: sampleBytes_def length_le16)

lemma frameBytes_nth:
  assumes "c < length channels" and "j < 2"
  shows "frameBytes channels f ! (c * 2 + j) = sampleBytes (channels ! c) f ! j"
proof -
  have "concat (map (\<lambda>ch. sampleBytes ch f) channels) ! (c * 2 + j)
        = map (\<lambda>ch. sampleBytes ch f) channels ! c ! j"
    using assms by (intro concat_nth_chunk) (simp_all add: length_sampleBytes)
  then show ?thesis using assms(1) by (simp add: frameBytes_sampleBytes)
qed

lemma interleaved_nth:
  assumes "f < length_buf buffer" and "c < numberOfChannels buffer" and "j < 2"
  shows "interleaved buffer ! (2 * (f * numberOfChannels buffer + c) + j)
         = sampleBytes (channelData buffer ! c) f ! j"
proof -
  let ?nc = "numberOfChannels buffer"
  let ?fs = "map (frameBytes (channelData buffer)) [0..<length_buf buffer]"
  have "concat ?fs ! (f * (2 * ?nc) + (c * 2 + j)) = ?fs ! f ! (c * 2 + j)"
    using assms
    by (intro concat_nth_chunk) (auto simp: length_frameBytes numberOfChannels_def)
  also have "\<dots> = frameBytes (channelData buffer) f ! (c * 2 + j)"
    using assms(1) by simp
  also have "\<dots> = sampleBytes (channelData buffer ! c) f ! j"
    using assms(2,3) by (intro frameBytes_nth) (simp_all add: numberOfChannels_def)
  finally show ?thesis
    by (simp add: interleaved_def algebra_simps)
qed

lemma s16_at_sample:
  assumes "\<forall>j<2. bs ! (p + j) = le16 w ! j"
  shows "s16_at bs p = sint w"
proof -
  have b: "unat w < 65536" using unsigned_less [of w, where 'a=nat] by simp
  have n: "bs ! p = ucast w" "bs ! (p + 1) = ucast (drop_bit 8 w)"
    using assms [rule_format, of 0] assms [rule_format, of 1] by (simp_all add: le16_def)
  have "u16_at bs p = unat w"
    unfolding u16_at_def n unat16_byte0 unat_drop16
    using bytes2_256 [OF b] b by (simp add: div_less_iff_less_mult)
  then show ?thesis by (simp add: s16_at_def)
qed

lemma bufferToWav_sample:
  assumes "f < length_buf buffer" and "c < numberOfChannels buffer"
  shows "\<exists>out. bufferToWav buffer = Some (Inr out)
     \<and> s16_at out (44 + 2 * (f * numberOfChannels buffer + c))
         = encodeSample (typedArrayGet (channelData buffer ! c) f)"
proof -
  let ?nc = "numberOfChannels buffer"
  let ?h = "headerBytes buffer ?nc (length_buf buffer * ?nc * 2 + 44)"
  let ?out = "?h @ interleaved buffer"
  let ?p = "2 * (f * ?nc + c)"
  let ?v = "encodeSample (typedArrayGet (channelData buffer ! c) f)"
  have "?out ! (44 + ?p + j) = le16 (toInt16 ?v) ! j" if "j < 2" for j
  proof -
    have "44 + ?p + j = length ?h + (?p + j)"
      by (simp add: length_headerBytes)
    then have "?out ! (44 + ?p + j) = interleaved buffer ! (?p + j)"
      by (simp only: nth_append_length_plus)
    also have "\<dots> = sampleBytes (channelData buffer ! c) f ! j"
      using assms that by (rule interleaved_nth)
    finally show ?thesis by (simp add: sampleBytes_def)
  qed
  then have "s16_at ?out (44 + ?p) = sint (toInt16 ?v)"
    by (intro s16_at_sample) simp
  also have "\<dots> = ?v"
    using encodeSample_range [of "typedArrayGet (channelData buffer ! c) f"]
    by (simp add: toInt16_def sint16_small)
  finally show ?thesis
    using bufferToWav_bytes [of buffer] by blast
qed

text \<open>
  C1. A finite sample is converted as the specification says: clamped to \<open>[-1, 1]\<close>,
  scaled by 32767 when the clamped value plus one half is non-negative and by 32768
  otherwise, truncated toward zero; the result is what the 16-bit store keeps, and the
  encoder's output holds it, as a signed 16-bit little-endian value, at the place of the
  sample's frame and channel. The sample 1.0 encodes to 32767, which divided by 32768 is
  32767/32768 and not 1, and the sample 0.0 encodes to 0.
\<close>

theorem sample_conversion:
  "encodeSample (Fin r) = spec_convert r
   \<and> sint (toInt16 (encodeSample (Fin r))) = spec_convert r
   \<and> (f < length_buf buffer \<and> c < numberOfChannels buffer
        \<and> f < length (channelData buffer ! c) \<and> channelData buffer ! c ! f = Fin r \<longrightarrow>
       (\<exists>out. bufferToWav buffer = Some (Inr out)
          \<and> s16_at out (44 + 2 * (f * numberOfChannels buffer + c)) = spec_convert r))
   \<and> encodeSample (Fin 1) = 32767
   \<and> real_of_int (encodeSample (Fin 1)) / 32768 = 32767 / 32768
   \<and> real_of_int (encodeSample (Fin 1)) / 32768 \<noteq> 1
   \<and> encodeSample (Fin 0) = 0"
proof -
  have a: "encodeSample (Fin r) = spec_convert r"
    by (rule encodeSample_Fin)
  have b: "sint (toInt16 (encodeSample (Fin r))) = spec_convert r"
    using spec_convert_range [of r] by (simp add: encodeSample_Fin toInt16_def sint16_small)
  have c: "f < length_buf buffer \<and> c < numberOfChannels buffer
        \<and> f < length (channelData buffer ! c) \<and> channelData buffer ! c ! f = Fin r \<longrightarrow>
       (\<exists>out. bufferToWav buffer = Some (Inr out)
          \<and> s16_at out (44 + 2 * (f * numberOfChannels buffer + c)) = spec_convert r)"
  proof
    assume h: "f < length_buf buffer \<and> c < numberOfChannels buffer
        \<and> f < length (channelData buffer ! c) \<and> channelData buffer ! c ! f = Fin r"
    then have "typedArrayGet (channelData buffer ! c) f = Fin r"
      by (simp add: typedArrayGet_def)
    then show "\<exists>out. bufferToWav buffer = Some (Inr out)
          \<and> s16_at out (44 + 2 * (f * numberOfChannels buffer + c)) = spec_convert r"
      using bufferToWav_sample [of f buffer c] h by (simp add: encodeSample_Fin)
  qed
  have d: "encodeSample (Fin 1) = 32767" "encodeSample (Fin 0) = 0"
    by (simp_all add: encodeSample_Fin spec_convert_values)
  show ?thesis
    using a b c d by simp
qed

theorem sample_conversion_witness:
  "encodeSample (Fin (- 3 / 4)) = - 24576
   \<and> (\<exists>out. bufferToWav \<lparr>sampleRate = 24000, length_buf = 2,
                    channelData = [[Fin 1, Fin (- 3 / 4)], [Fin 0, Fin (1 / 2)]]\<rparr> = Some (Inr out)
         \<and> s16_at out 48 = - 24576)"
proof -
  let ?b = "\<lparr>sampleRate = 24000, length_buf = 2,
             channelData = [[Fin 1, Fin (- 3 / 4)], [Fin 0, Fin (1 / 2)]]\<rparr>"
  have v: "spec_convert (- 3 / 4) = - 24576"
    by (simp add: spec_convert_def spec_clamp_def trunc_def)
  have h: "1 < length_buf ?b \<and> 0 < numberOfChannels ?b
        \<and> 1 < length (channelData ?b ! 0) \<and> channelData ?b ! 0 ! 1 = Fin (- 3 / 4)"
    by (simp add: numberOfChannels_def)
  have p: "44 + 2 * (1 * numberOfChannels ?b + 0) = 48"
    by (simp add: numberOfChannels_def)
  show ?thesis
    using sample_conversion [of "- 3 / 4" 1 ?b 0] h unfolding p v by blast
qed

section \<open>Properties of the duration estimator\<close>







text \<open>
  The token count includes the empty token before leading and after trailing white space:
  a narration of one space followed by one letter counts two.
\<close>

lemma wordCount_leading_space: "wordCount [0x20, 0x61] = 2"
  by (simp add: wordCount_def split_ws_def isWhiteSpace_def)

section \<open>Properties of the frame compositor\<close>



lemma drawRect_pillar:
  assumes "0 < cw" "0 < ch" "0 < iw" "0 < ih" and gt: "real iw / real ih < real cw / real ch"
  shows "drawRect cw ch iw ih
         = \<lparr>dx = Fin ((real cw - real ch * (real iw / real ih)) / 2), dy = Fin 0,
             drawWidth = Fin (real ch * (real iw / real ih)), drawHeight = Fin (real ch)\<rparr>"
  using assms
  by (simp add: drawRect_def drawSize_def canvasAspect_def imgAspect_def num_gt_def num_sub_def)

lemma drawRect_letter:
  assumes "0 < cw" "0 < ch" "0 < iw" "0 < ih" and le: "\<not> real iw / real ih < real cw / real ch"
  shows "drawRect cw ch iw ih
         = \<lparr>dx = Fin 0, dy = Fin ((real ch - real cw / (real iw / real ih)) / 2),
             drawWidth = Fin (real cw), drawHeight = Fin (real cw / (real iw / real ih))\<rparr>"
  using assms
  by (simp add: drawRect_def drawSize_def canvasAspect_def imgAspect_def num_gt_def num_sub_def)

lemma pillar_fits:
  fixes c h a b :: real
  assumes "0 < h" "0 < b" "a / b < c / h"
  shows "h * (a / b) < c"
proof -
  have "h * (a / b) < h * (c / h)" using assms by (simp only: mult_less_cancel_left_pos)
  then show ?thesis using assms by simp
qed

lemma letter_fits:
  fixes c h a b :: real
  assumes "0 < h" "0 < b" "0 < a" "0 \<le> c" "c / h \<le> a / b"
  shows "c / (a / b) \<le> h" and "c / (a / b) = h \<longleftrightarrow> c / h = a / b"
proof -
  have p: "0 < a / b" using assms by simp
  have "c \<le> (a / b) * h" using assms(1,5) by (simp only: pos_divide_le_eq)
  then have "c \<le> h * (a / b)" by (simp only: mult.commute)
  then show "c / (a / b) \<le> h" using p by (simp only: pos_divide_le_eq)
  show "c / (a / b) = h \<longleftrightarrow> c / h = a / b"
    using assms by (auto simp: field_simps)
qed

lemma centre_bounds:
  fixes c w :: real
  assumes "w \<le> c"
  shows "0 \<le> (c - w) / 2" and "(c - w) / 2 + w \<le> c" and "(c - w) / 2 = 0 \<longleftrightarrow> w = c"
  using assms by (auto simp: field_simps)

text \<open>
  C6, as the specification states it, fails: when the image has the canvas's aspect
  ratio both offsets are zero, so it is not the case that exactly one of them is.
\<close>

theorem offsets_counterexample:
  "dx (drawRect 1280 720 1280 720) = Fin 0 \<and> dy (drawRect 1280 720 1280 720) = Fin 0
   \<and> \<not> exactlyOneOffsetZero (drawRect 1280 720 1280 720)"
  by (simp add: exactlyOneOffsetZero_def drawRect_def drawSize_def canvasAspect_def imgAspect_def num_gt_def num_sub_def)


text \<open>
  C6, amended. For positive canvas and image dimensions the draw rectangle is finite, lies
  within the canvas on both axes and is centred on both axes; at least one of the two
  offsets is zero, and both are zero exactly when the two aspect ratios are equal.
\<close>

theorem draw_rect_centred:
  assumes "0 < cw" and "0 < ch" and "0 < iw" and "0 < ih"
  shows "\<exists>x y w h. drawRect cw ch iw ih
                     = \<lparr>dx = Fin x, dy = Fin y, drawWidth = Fin w, drawHeight = Fin h\<rparr>
     \<and> 0 \<le> x \<and> x + w \<le> real cw \<and> 0 \<le> y \<and> y + h \<le> real ch
     \<and> x = (real cw - w) / 2 \<and> y = (real ch - h) / 2
     \<and> (x = 0 \<or> y = 0)
     \<and> ((x = 0 \<and> y = 0) \<longleftrightarrow> real cw / real ch = real iw / real ih)"
proof (cases "real iw / real ih < real cw / real ch")
  case True
  define w where "w = real ch * (real iw / real ih)"
  have f: "w < real cw"
    unfolding w_def
    using pillar_fits [of "real ch" "real ih" "real iw" "real cw"] assms True by simp
  have r: "drawRect cw ch iw ih
           = \<lparr>dx = Fin ((real cw - w) / 2), dy = Fin 0, drawWidth = Fin w,
               drawHeight = Fin (real ch)\<rparr>"
    unfolding w_def by (rule drawRect_pillar [OF assms True])
  have b: "0 \<le> (real cw - w) / 2" "(real cw - w) / 2 + w \<le> real cw"
      "(real cw - w) / 2 \<noteq> 0"
    using centre_bounds [of w "real cw"] f by auto
  have n: "real cw / real ch \<noteq> real iw / real ih" using True by simp
  show ?thesis
    apply (rule exI [of _ "(real cw - w) / 2"])
    apply (rule exI [of _ 0])
    apply (rule exI [of _ w])
    apply (rule exI [of _ "real ch"])
    using r b n by simp
next
  case False
  define h where "h = real cw / (real iw / real ih)"
  have le: "real cw / real ch \<le> real iw / real ih" using False by simp
  have f: "h \<le> real ch" and e: "h = real ch \<longleftrightarrow> real cw / real ch = real iw / real ih"
    unfolding h_def
    using letter_fits [of "real ch" "real ih" "real iw" "real cw"] assms le by simp_all
  have r: "drawRect cw ch iw ih
           = \<lparr>dx = Fin 0, dy = Fin ((real ch - h) / 2), drawWidth = Fin (real cw),
               drawHeight = Fin h\<rparr>"
    unfolding h_def by (rule drawRect_letter [OF assms False])
  have b: "0 \<le> (real ch - h) / 2" "(real ch - h) / 2 + h \<le> real ch"
      "(real ch - h) / 2 = 0 \<longleftrightarrow> h = real ch"
    using centre_bounds [of h "real ch"] f by auto
  show ?thesis
    apply (rule exI [of _ 0])
    apply (rule exI [of _ "(real ch - h) / 2"])
    apply (rule exI [of _ "real cw"])
    apply (rule exI [of _ h])
    using r b e by simp
qed

theorem draw_rect_centred_witness:
  "\<exists>x y w h. drawRect 1280 720 1000 1000
                     = \<lparr>dx = Fin x, dy = Fin y, drawWidth = Fin w, drawHeight = Fin h\<rparr>
     \<and> 0 \<le> x \<and> x + w \<le> 1280 \<and> 0 \<le> y \<and> y + h \<le> 720
     \<and> x = (1280 - w) / 2 \<and> y = (720 - h) / 2 \<and> (x = 0 \<or> y = 0)
     \<and> \<not> (x = 0 \<and> y = 0)"
proof -
  have p: "(0::nat) < 1280" "(0::nat) < 720" "(0::nat) < 1000" by simp_all
  show ?thesis
    using draw_rect_centred [OF p(1) p(2) p(3) p(3)] by simp
qed


section \<open>Properties of the export slide show\<close>


















section \<open>Properties of the presentation viewer\<close>


lemma clearRef_fields:
  "slidesLength (clearRef s) = slidesLength s"
  "currentSlideIndex_v (clearRef s) = currentSlideIndex_v s"
  "isPlaying (clearRef s) = isPlaying s"
  "slideTimeoutRef (clearRef s) = slideTimeoutRef s"
  "audioEnded (clearRef s) = audioEnded s"
  "nextTimerId_v (clearRef s) = nextTimerId_v s"
  "firings (clearRef s) = firings s"
  "staleFirings (clearRef s) = staleFirings s"
  by (simp_all add: clearRef_def split: option.splits)



lemma scheduleNextSlide_fields:
  "slidesLength (scheduleNextSlide s) = slidesLength s"
  "currentSlideIndex_v (scheduleNextSlide s) = currentSlideIndex_v s"
  "audioEnded (scheduleNextSlide s) = audioEnded s"
  "firings (scheduleNextSlide s) = firings s"
  "staleFirings (scheduleNextSlide s) = staleFirings s"
  by (simp_all add: scheduleNextSlide_def Let_def clearRef_fields)



lemma runEffect_fields:
  "slidesLength (runEffect s) = slidesLength s"
  "currentSlideIndex_v (runEffect s) = currentSlideIndex_v s"
  "audioEnded (runEffect s) = audioEnded s"
  "firings (runEffect s) = firings s"
  "staleFirings (runEffect s) = staleFirings s"
  by (simp_all add: runEffect_def Let_def clearRef_fields scheduleNextSlide_fields)



























lemma settle_firings: "firings (settle k p c) = firings c"
  by (induction k arbitrary: p c) (simp_all add: runEffect_fields)






section \<open>The slide index stays in range\<close>
















section \<open>Properties of a failed export\<close>










end
